theory Spec2Isabelle
  imports Main "HOL-Library.Word" "HOL-Library.AList" "HOL-Library.Multiset"
begin

section \<open>Go values used by memchart.go\<close>

text \<open>
  Go's \<open>int\<close> on a 64-bit target: a 64-bit two's complement word. \<open>+\<close> wraps, \<open>sint\<close>
  reads the signed value. Strings are byte sequences (\<open>char list\<close>).
\<close>

type_synonym goint = "64 word"

text \<open>The run-time panics the modelled code can raise.\<close>

datatype panic = IndexOutOfRange | SliceBoundsOutOfRange | NilMapAssignment | MarshalFailed

text \<open>
  The Unicode tables of Go's runtime are not part of the repository. The two library
  functions that consult them take an ASCII-only path written out below and otherwise
  delegate to these two functions: \<open>strings.FieldsFunc(s, unicode.IsSpace)\<close> and
  \<open>strings.Map(unicode.ToLower, s)\<close>. Every general theorem holds for any value of them.
\<close>

record unicode =
  FieldsFunc_IsSpace :: "string \<Rightarrow> string list"
  Map_ToLower :: "string \<Rightarrow> string"

text \<open>A sample value, for evaluating the model on concrete (ASCII) inputs.\<close>

definition no_unicode :: unicode where
  "no_unicode = \<lparr>FieldsFunc_IsSpace = (\<lambda>s. [s]), Map_ToLower = (\<lambda>s. s)\<rparr>"

subsection \<open>Package strings\<close>

text \<open>A byte below \<open>utf8.RuneSelf\<close> (0x80): the top bit is clear.\<close>

definition isASCII :: "string \<Rightarrow> bool" where
  "isASCII s = list_all (\<lambda>c. \<not> digit7 c) s"

text \<open>The table \<open>asciiSpace\<close>: tab, newline, vertical tab, form feed, carriage return, space.\<close>

definition asciiSpace :: "char \<Rightarrow> bool" where
  "asciiSpace c = (c = CHR 0x09 \<or> c = CHR 0x0A \<or> c = CHR 0x0B \<or> c = CHR 0x0C
                    \<or> c = CHR 0x0D \<or> c = CHR 0x20)"

text \<open>The ASCII path of \<open>strings.Fields\<close>: the maximal runs of non-space bytes, in order.\<close>

function ascii_fields :: "string \<Rightarrow> string list" where
  "ascii_fields [] = []"
| "ascii_fields (c # cs) =
     (if asciiSpace c then ascii_fields cs
      else (c # takeWhile (\<lambda>x. \<not> asciiSpace x) cs)
             # ascii_fields (dropWhile (\<lambda>x. \<not> asciiSpace x) cs))"
  by pat_completeness auto
termination
  by (relation "measure length") (auto simp: length_dropWhile_le less_Suc_eq_le)

definition Fields :: "unicode \<Rightarrow> string \<Rightarrow> string list" where
  "Fields U s = (if isASCII s then ascii_fields s else FieldsFunc_IsSpace U s)"

text \<open>\<open>strings.Split(s, sep)\<close> for a one-byte separator: never an empty slice.\<close>

fun Split :: "string \<Rightarrow> char \<Rightarrow> string list" where
  "Split [] sep = [[]]"
| "Split (c # cs) sep =
     (if c = sep then [] # Split cs sep
      else (case Split cs sep of [] \<Rightarrow> [[c]] | x # xs \<Rightarrow> (c # x) # xs))"

text \<open>\<open>strings.TrimRight(s, cutset)\<close> for an ASCII cutset.\<close>

definition TrimRight :: "string \<Rightarrow> string \<Rightarrow> string" where
  "TrimRight s cutset = rev (dropWhile (\<lambda>c. c \<in> set cutset) (rev s))"

text \<open>The ASCII path of \<open>strings.ToLower\<close>: \<open>A..Z\<close> become \<open>a..z\<close>.\<close>

definition ascii_lower :: "char \<Rightarrow> char" where
  "ascii_lower c =
     (case map_of (zip ''ABCDEFGHIJKLMNOPQRSTUVWXYZ'' ''abcdefghijklmnopqrstuvwxyz'') c of
        None \<Rightarrow> c | Some l \<Rightarrow> l)"

definition ToLower :: "unicode \<Rightarrow> string \<Rightarrow> string" where
  "ToLower U s = (if isASCII s then map ascii_lower s else Map_ToLower U s)"

text \<open>\<open>strings.Index(s, sep)\<close> for a one-byte \<open>sep\<close>: the first position, or -1.\<close>

fun Index :: "string \<Rightarrow> char \<Rightarrow> int" where
  "Index [] sep = -1"
| "Index (c # cs) sep =
     (if c = sep then 0 else (let i = Index cs sep in if i < 0 then -1 else i + 1))"

subsection \<open>Package strconv\<close>

datatype numerror = ErrSyntax | ErrRange

definition digit_val :: "char \<Rightarrow> nat option" where
  "digit_val c = map_of (zip ''0123456789'' [0, 1, 2, 3, 4, 5, 6, 7, 8, 9]) c"

definition maxUint64 :: nat where
  "maxUint64 = 18446744073709551615"

text \<open>
  The digit loop of \<open>strconv.ParseUint(s, 10, 64)\<close>. A byte that is no decimal digit is a
  syntax error with value 0; once the value no longer fits, the loop returns the maximum
  with a range error at once, without looking at the bytes that follow.
  The natural number \<open>n * 10 + d\<close> exceeds \<open>maxUint64\<close> exactly when the 64-bit sum wraps.
\<close>

fun ParseUint_loop :: "string \<Rightarrow> nat \<Rightarrow> nat \<times> numerror option" where
  "ParseUint_loop [] n = (n, None)"
| "ParseUint_loop (c # cs) n =
     (case digit_val c of
        None \<Rightarrow> (0, Some ErrSyntax)
      | Some d \<Rightarrow>
          if n \<ge> maxUint64 div 10 + 1 then (maxUint64, Some ErrRange)
          else if n * 10 + d > maxUint64 then (maxUint64, Some ErrRange)
          else ParseUint_loop cs (n * 10 + d))"

definition ParseUint :: "string \<Rightarrow> nat \<times> numerror option" where
  "ParseUint s = (if s = [] then (0, Some ErrSyntax) else ParseUint_loop s 0)"

text \<open>
  \<open>strconv.ParseInt(s, 10, 0)\<close>: an optional sign, then \<open>ParseUint\<close>; a syntax error gives 0,
  a value outside the 64-bit signed range gives the nearest bound with a range error.
\<close>

definition ParseInt :: "string \<Rightarrow> goint \<times> numerror option" where
  "ParseInt s0 =
     (if s0 = [] then (0, Some ErrSyntax)
      else
        let neg = (hd s0 = CHR ''-'');
            s = (if hd s0 = CHR ''+'' \<or> hd s0 = CHR ''-'' then tl s0 else s0);
            (un, err) = ParseUint s
        in if err = Some ErrSyntax then (0, err)
           else if \<not> neg \<and> un \<ge> 2 ^ 63 then (word_of_nat (2 ^ 63 - 1), Some ErrRange)
           else if neg \<and> un > 2 ^ 63 then (- word_of_nat (2 ^ 63), Some ErrRange)
           else (if neg then - word_of_nat un else word_of_nat un, None))"

text \<open>\<open>strconv.Atoi\<close>: \<open>ParseInt(s, 10, 0)\<close> converted to \<open>int\<close> (the same width here).\<close>

definition Atoi :: "string \<Rightarrow> goint \<times> numerror option" where
  "Atoi s = ParseInt s"

text \<open>\<open>strconv.Itoa\<close>: the decimal digits of the signed value, with a leading minus sign.\<close>

fun digits10 :: "nat \<Rightarrow> string" where
  "digits10 n =
     (if n < 10 then [''0123456789'' ! n]
      else digits10 (n div 10) @ [''0123456789'' ! (n mod 10)])"

definition Itoa :: "goint \<Rightarrow> string" where
  "Itoa i = (if sint i < 0 then CHR ''-'' # digits10 (nat (- sint i)) else digits10 (nat (sint i)))"

subsection \<open>Go maps\<close>

text \<open>
  A Go map is an association list with pairwise distinct keys: \<open>map_of\<close> is the lookup,
  \<open>AList.update\<close> the assignment \<open>m[k] = v\<close>, \<open>AList.delete\<close> the builtin \<open>delete(m, k)\<close>.
  A \<open>range\<close> loop visits the entries in an unspecified order; the list order stands for
  the order of one such loop, and two lists with the same entries are the same map.
  Reading a missing key gives the zero value.
\<close>

definition lookup0 :: "('k \<times> goint) list \<Rightarrow> 'k \<Rightarrow> goint" where
  "lookup0 m k = (case map_of m k of None \<Rightarrow> 0 | Some v \<Rightarrow> v)"

section \<open>memchart.go\<close>

record piddata =
  cmdline :: string
  Name :: string
  RSS :: goint
  PSS :: goint
  USS :: goint

definition isKernelProc :: "piddata \<Rightarrow> bool" where
  "isKernelProc pd = (length (cmdline pd) = 0)"

type_synonym counters = "(string \<times> goint) list"

type_synonym pmaps = "(string \<times> counters) list"

type_synonym table = "(string \<times> piddata) list"

subsection \<open>getsmaps\<close>

text \<open>
  The body of the loop of \<open>getsmaps\<close> for a non-empty line, on the loop's state
  \<open>(start, pm)\<close>. \<open>f[len(f)-1]\<close> panics when \<open>f\<close> is empty. In the assignment
  \<open>pm[start][n], _ = strconv.Atoi(f[1])\<close> the operand \<open>f[1]\<close> is evaluated first;
  then the store into \<open>pm[start]\<close> panics when that inner map was never made.
  The error of \<open>Atoi\<close> is dropped and its value stored.
\<close>

definition getsmaps_line :: "unicode \<Rightarrow> string \<Rightarrow> string \<times> pmaps \<Rightarrow> panic + string \<times> pmaps" where
  "getsmaps_line U line st =
     (let start = fst st; pm = snd st; f = Fields U line in
      if f = [] then Inl IndexOutOfRange
      else if ''kB'' \<noteq> last f then
        (let start' = hd (Split (hd f) CHR ''-'') in Inr (start', AList.update start' [] pm))
      else
        (let n = ToLower U (TrimRight (hd f) '':'') in
         if length f < 2 then Inl IndexOutOfRange
         else (case map_of pm start of
                 None \<Rightarrow> Inl NilMapAssignment
               | Some m \<Rightarrow>
                   Inr (start, AList.update start (AList.update n (fst (Atoi (f ! 1))) m) pm))))"

fun getsmaps_loop :: "unicode \<Rightarrow> string list \<Rightarrow> string \<times> pmaps \<Rightarrow> panic + string \<times> pmaps" where
  "getsmaps_loop U [] st = Inr st"
| "getsmaps_loop U (line # lines) st =
     (if length line = 0 then Inr st
      else (case getsmaps_line U line st of
              Inl p \<Rightarrow> Inl p
            | Inr st' \<Rightarrow> getsmaps_loop U lines st'))"

definition getsmaps :: "unicode \<Rightarrow> string \<Rightarrow> panic + pmaps" where
  "getsmaps U smaps =
     (case getsmaps_loop U (Split smaps CHR 0x0A) ([], []) of
        Inl p \<Rightarrow> Inl p
      | Inr st \<Rightarrow> Inr (snd st))"

text \<open>
  What the loop has stored once it has read a whole block: the counters of the block,
  stored one after the other into a fresh inner map, under the block's key.
\<close>

definition counter_set :: "(string \<times> goint) list \<Rightarrow> counters \<Rightarrow> counters" where
  "counter_set cs m = fold (\<lambda>kv. AList.update (fst kv) (snd kv)) cs m"

definition add_block :: "string \<times> (string \<times> goint) list \<Rightarrow> pmaps \<Rightarrow> pmaps" where
  "add_block b pm = AList.update (fst b) (counter_set (snd b) []) pm"

subsection \<open>memsizes\<close>

fun memsizes_loop :: "pmaps \<Rightarrow> goint \<times> goint \<times> goint \<Rightarrow> goint \<times> goint \<times> goint" where
  "memsizes_loop [] acc = acc"
| "memsizes_loop ((a, m) # rest) (rss, pss, uss) =
     memsizes_loop rest
       (rss + lookup0 m ''rss'', pss + lookup0 m ''pss'',
        uss + (lookup0 m ''private_clean'' + lookup0 m ''private_dirty''))"

definition memsizes :: "unicode \<Rightarrow> string \<Rightarrow> panic + goint \<times> goint \<times> goint" where
  "memsizes U smaps =
     (case getsmaps U smaps of
        Inl p \<Rightarrow> Inl p
      | Inr pm \<Rightarrow> Inr (memsizes_loop pm (0, 0, 0)))"

subsection \<open>snapshotPid\<close>

text \<open>
  \<open>ioutil.ReadFile\<close> is a function from a path to an error or the file's bytes;
  \<open>os.IsNotExist\<close> recognises the error of a missing file or directory.
\<close>

datatype ioerror = ErrNotExist | ErrPermission | ErrOther

type_synonym procfs = "string \<Rightarrow> ioerror + string"

definition IsNotExist :: "ioerror \<Rightarrow> bool" where
  "IsNotExist err = (err = ErrNotExist)"

text \<open>The slice expression \<open>s[lo:hi]\<close>: it panics unless \<open>0 \<le> lo \<le> hi \<le> len(s)\<close>.\<close>

definition slice :: "string \<Rightarrow> int \<Rightarrow> int \<Rightarrow> panic + string" where
  "slice s lo hi =
     (if 0 \<le> lo \<and> lo \<le> hi \<and> hi \<le> int (length s)
      then Inr (take (nat (hi - lo)) (drop (nat lo) s))
      else Inl SliceBoundsOutOfRange)"

text \<open>
  The result is a panic, or the returned pair: an error, or the record. The log line
  written on the first failure is not part of the result.
\<close>

definition snapshotPid :: "unicode \<Rightarrow> procfs \<Rightarrow> string \<Rightarrow> panic + ioerror + piddata" where
  "snapshotPid U fs pid =
     (let pidpath = ''/proc/'' @ pid @ ''/'' in
      case fs (pidpath @ ''cmdline'') of
        Inl err \<Rightarrow> Inr (Inl err)
      | Inr cmdl \<Rightarrow>
     (case fs (pidpath @ ''smaps'') of
        Inl err \<Rightarrow> Inr (Inl err)
      | Inr smaps \<Rightarrow>
     (case fs (pidpath @ ''stat'') of
        Inl err \<Rightarrow> Inr (Inl err)
      | Inr stat \<Rightarrow>
          (let i = Index stat CHR ''(''; j = Index stat CHR '')'' in
           case slice stat (i + 1) j of
             Inl p \<Rightarrow> Inl p
           | Inr name \<Rightarrow>
               (case memsizes U smaps of
                  Inl p \<Rightarrow> Inl p
                | Inr (rss, pss, uss) \<Rightarrow>
                    Inr (Inr \<lparr>cmdline = cmdl, Name = name, RSS = rss, PSS = pss, USS = uss\<rparr>))))))"

subsection \<open>snapshotPids\<close>

text \<open>One iteration of the loop of \<open>snapshotPids\<close> on the global table \<open>allpids\<close>.\<close>

definition snapshotPids_body :: "unicode \<Rightarrow> procfs \<Rightarrow> string \<Rightarrow> table \<Rightarrow> panic + table" where
  "snapshotPids_body U fs pid allpids =
     (case snapshotPid U fs pid of
        Inl p \<Rightarrow> Inl p
      | Inr (Inr pd) \<Rightarrow>
          Inr (if \<not> isKernelProc pd then AList.update pid pd allpids else allpids)
      | Inr (Inl err) \<Rightarrow>
          Inr (if IsNotExist err then AList.delete pid allpids else allpids))"

fun snapshotPids :: "unicode \<Rightarrow> procfs \<Rightarrow> string list \<Rightarrow> table \<Rightarrow> panic + table" where
  "snapshotPids U fs [] allpids = Inr allpids"
| "snapshotPids U fs (pid # pids) allpids =
     (case snapshotPids_body U fs pid allpids of
        Inl p \<Rightarrow> Inl p
      | Inr allpids' \<Rightarrow> snapshotPids U fs pids allpids')"

text \<open>
  \<open>main\<close> makes the table empty and then only \<open>snapshotPids\<close> writes it, once per call of
  \<open>work\<close>. The process filesystem changes between the calls, so a run of the program is a
  finite sequence of calls, each with its own filesystem and list of process ids.
\<close>

fun run_cycles :: "unicode \<Rightarrow> (procfs \<times> string list) list \<Rightarrow> table \<Rightarrow> panic + table" where
  "run_cycles U [] allpids = Inr allpids"
| "run_cycles U ((fs, pids) # rest) allpids =
     (case snapshotPids U fs pids allpids of
        Inl p \<Rightarrow> Inl p
      | Inr allpids' \<Rightarrow> run_cycles U rest allpids')"

text \<open>The invariant of the table: every record has a non-empty command line.\<close>

definition user_records :: "table \<Rightarrow> bool" where
  "user_records allpids = list_all (\<lambda>e. cmdline (snd e) \<noteq> []) allpids"

subsection \<open>makeCSV, printCSV and makeJSON\<close>

text \<open>
  \<open>makeCSV\<close> allocates one (nil) row per table entry and fills row \<open>c\<close> in the \<open>c\<close>-th
  iteration over the table.
\<close>

fun makeCSV_loop :: "table \<Rightarrow> string list list \<Rightarrow> nat \<Rightarrow> panic + string list list" where
  "makeCSV_loop [] d c = Inr d"
| "makeCSV_loop ((pid, entry) # rest) d c =
     (if c < length d
      then makeCSV_loop rest
             (d[c := [pid, Name entry, Itoa (RSS entry), Itoa (USS entry), Itoa (PSS entry)]])
             (c + 1)
      else Inl IndexOutOfRange)"

definition makeCSV :: "table \<Rightarrow> panic + string list list" where
  "makeCSV allpids = makeCSV_loop allpids (replicate (length allpids) []) 0"

text \<open>The row \<open>makeCSV\<close> builds for an entry of the table.\<close>

definition csv_row :: "string \<times> piddata \<Rightarrow> string list" where
  "csv_row e = [fst e, Name (snd e), Itoa (RSS (snd e)), Itoa (USS (snd e)), Itoa (PSS (snd e))]"

text \<open>
  \<open>printCSV\<close> writes the header line to \<open>w\<close> and then the records through a
  \<open>csv.Writer\<close>; the parameter \<open>WriteAll\<close> is the text that library writes for the records.
  The result is everything written to \<open>w\<close>.
\<close>

definition printCSV :: "(string list list \<Rightarrow> string) \<Rightarrow> table \<Rightarrow> panic + string" where
  "printCSV WriteAll allpids =
     (case makeCSV allpids of
        Inl p \<Rightarrow> Inl p
      | Inr d \<Rightarrow> Inr (''pid,name,rss,uss,pss'' @ [CHR 0x0A] @ WriteAll d))"

text \<open>The writer's text for records whose fields need no quoting.\<close>

definition plain_csv :: "string list list \<Rightarrow> string" where
  "plain_csv d =
     concat (map (\<lambda>r. (case r of [] \<Rightarrow> [] | x # xs \<Rightarrow> x @ concat (map (\<lambda>y. CHR '','' # y) xs))
                       @ [CHR 0x0A]) d)"

record snap =
  Time :: string
  Pids :: table

text \<open>
  \<open>makeJSON\<close>: the parameters are the formatted clock reading and \<open>json.MarshalIndent\<close>,
  which fails with \<open>None\<close>.
\<close>

definition makeJSON :: "(snap \<Rightarrow> string option) \<Rightarrow> string \<Rightarrow> table \<Rightarrow> panic + string" where
  "makeJSON MarshalIndent timestamp allpids =
     (case MarshalIndent \<lparr>Time = timestamp, Pids = allpids\<rparr> of
        None \<Rightarrow> Inl MarshalFailed
      | Some j \<Rightarrow> Inr j)"

section \<open>The specification's reading of the mapping-accounting text\<close>

text \<open>
  These definitions follow the words of the specification, not the code. The text is a
  sequence of blocks up to the first empty line; a line is a counter line when its last
  whitespace-separated field is \<open>kB\<close> and a header otherwise; a block is a header with the
  counter lines that follow it. A block is kept as its starting address (the text before
  the first \<open>-\<close>) and its counters in the order of their lines: the lowercased label
  without trailing colons, and the value, 0 when it does not parse.
\<close>

definition body_lines :: "string \<Rightarrow> string list" where
  "body_lines smaps = takeWhile (\<lambda>l. l \<noteq> []) (Split smaps CHR 0x0A)"

definition counter_line :: "unicode \<Rightarrow> string \<Rightarrow> bool" where
  "counter_line U l = (Fields U l \<noteq> [] \<and> last (Fields U l) = ''kB'')"

definition spec_start :: "unicode \<Rightarrow> string \<Rightarrow> string" where
  "spec_start U l = takeWhile (\<lambda>c. c \<noteq> CHR ''-'') (hd (Fields U l))"

definition parseOrZero :: "string \<Rightarrow> goint" where
  "parseOrZero v = (case snd (Atoi v) of None \<Rightarrow> fst (Atoi v) | Some e \<Rightarrow> 0)"

definition spec_counter :: "unicode \<Rightarrow> string \<Rightarrow> string \<times> goint" where
  "spec_counter U l =
     (ToLower U (TrimRight (hd (Fields U l)) '':''), parseOrZero (Fields U l ! 1))"

type_synonym block = "string \<times> (string \<times> goint) list"

function spec_blocks :: "unicode \<Rightarrow> string list \<Rightarrow> block list" where
  "spec_blocks U [] = []"
| "spec_blocks U (l # ls) =
     (spec_start U l, map (spec_counter U) (takeWhile (counter_line U) ls))
       # spec_blocks U (dropWhile (counter_line U) ls)"
  by pat_completeness auto
termination
  by (relation "measure (\<lambda>p. length (snd p))") (auto simp: length_dropWhile_le less_Suc_eq_le)

text \<open>The value of a counter in a block: that of its last line with the label, 0 if none.\<close>

definition block_counter :: "block \<Rightarrow> string \<Rightarrow> goint" where
  "block_counter b k = (case map_of (rev (snd b)) k of None \<Rightarrow> 0 | Some v \<Rightarrow> v)"

definition spec_totals :: "block list \<Rightarrow> goint \<times> goint \<times> goint" where
  "spec_totals bs =
     (sum_list (map (\<lambda>b. block_counter b ''rss'') bs),
      sum_list (map (\<lambda>b. block_counter b ''pss'') bs),
      sum_list (map (\<lambda>b. block_counter b ''private_clean'' + block_counter b ''private_dirty'') bs))"

text \<open>
  Of several blocks with the same starting address, those that a later block replaces
  are dropped and the last one stays.
\<close>

fun last_blocks :: "block list \<Rightarrow> block list" where
  "last_blocks [] = []"
| "last_blocks (b # bs) =
     (if fst b \<in> fst ` set bs then last_blocks bs else b # last_blocks bs)"

text \<open>The entry the parser's map holds for a block once the block is read.\<close>

definition entry :: "block \<Rightarrow> string \<times> counters" where
  "entry b = (fst b, counter_set (snd b) [])"

text \<open>
  Well-formed text: before the first empty line no line is blank, the first line is a
  header, and every counter line is \<open>label: value kB\<close> with a value that parses.
\<close>

definition counter_ok :: "unicode \<Rightarrow> string \<Rightarrow> bool" where
  "counter_ok U l =
     (if counter_line U l
      then 2 \<le> length (Fields U l) \<and> snd (Atoi (Fields U l ! 1)) = None
      else Fields U l \<noteq> [])"

definition well_formed :: "unicode \<Rightarrow> string \<Rightarrow> bool" where
  "well_formed U smaps =
     (list_all (counter_ok U) (body_lines smaps) \<and>
      (case body_lines smaps of [] \<Rightarrow> True | l # ls \<Rightarrow> \<not> counter_line U l))"

text \<open>
  The specification's process name: the bytes strictly between the first \<open>(\<close> and the
  last \<open>)\<close> of the status line.
\<close>

definition LastIndex :: "string \<Rightarrow> char \<Rightarrow> int" where
  "LastIndex s sep =
     (let i = Index (rev s) sep in if i < 0 then -1 else int (length s) - 1 - i)"

definition spec_name :: "string \<Rightarrow> string" where
  "spec_name stat =
     take (nat (LastIndex stat CHR '')'' - (Index stat CHR ''('' + 1)))
          (drop (nat (Index stat CHR ''('' + 1)) stat)"

text \<open>
  A value field is numeric when it is an optional sign followed by one or more decimal
  digits.
\<close>

definition numeric :: "string \<Rightarrow> bool" where
  "numeric v =
     (let ds = (if v \<noteq> [] \<and> (hd v = CHR ''+'' \<or> hd v = CHR ''-'') then tl v else v)
      in ds \<noteq> [] \<and> list_all (\<lambda>c. digit_val c \<noteq> None) ds)"

section \<open>Sample inputs\<close>

text \<open>The block of the specification's examples.\<close>

definition cat_block :: string where
  "cat_block = ''08048000-08049000 r-xp ... /bin/cat\<newline>Rss: 4 kB\<newline>Pss: 2 kB\<newline>Private_Clean: 0 kB\<newline>Private_Dirty: 4 kB\<newline>''"

text \<open>A second block at another address, with no \<open>Pss\<close> line.\<close>

definition libc_block :: string where
  "libc_block = ''b7e00000-b7f00000 r--p ... /lib/libc.so\<newline>Rss: 16 kB\<newline>Private_Dirty: 1 kB\<newline>''"

text \<open>A process filesystem with one process, whose name contains a closing parenthesis.\<close>

definition proc1 :: procfs where
  "proc1 path =
     (if path = ''/proc/1/cmdline'' then Inr ''/sbin/init''
      else if path = ''/proc/1/smaps'' then Inr cat_block
      else if path = ''/proc/1/stat'' then Inr ''1 (a)b) S 0 1 1''
      else Inl ErrNotExist)"

text \<open>A filesystem holding a kernel thread (empty command line) and one unreadable process.\<close>

definition proc2 :: procfs where
  "proc2 path =
     (if path = ''/proc/2/cmdline'' then Inr []
      else if path = ''/proc/2/smaps'' then Inr []
      else if path = ''/proc/2/stat'' then Inr ''2 (kthreadd) S 0 0 0''
      else if path = ''/proc/1/cmdline'' then Inl ErrPermission
      else Inl ErrNotExist)"

text \<open>A block at the address of \<open>cat_block\<close> with other counters.\<close>

definition dup_block :: string where
  "dup_block = ''08048000-08049000 rw-p ... /bin/cat\<newline>Rss: 16 kB\<newline>Private_Dirty: 1 kB\<newline>''"

text \<open>A block whose \<open>Rss\<close> value is no number: twenty digits and a letter.\<close>

definition bad_block :: string where
  "bad_block = ''08048000-08049000 r-xp ... /bin/cat\<newline>Rss: 99999999999999999999x kB\<newline>''"

text \<open>A table with two processes.\<close>

definition two_procs :: table where
  "two_procs =
     [(''1'', \<lparr>cmdline = ''/sbin/init'', Name = ''init'', RSS = 4, PSS = 2, USS = 4\<rparr>),
      (''7'', \<lparr>cmdline = ''/bin/cat'', Name = ''cat'', RSS = 16, PSS = 8, USS = 1\<rparr>)]"

section \<open>Library facts\<close>

lemma Split_not_Nil: "Split s c \<noteq> []"
  by (induction s) (auto split: list.splits)

lemma hd_Split: "hd (Split s c) = takeWhile (\<lambda>x. x \<noteq> c) s"
  by (induction s) (auto split: list.splits simp: Split_not_Nil)

lemma Split_append: "Split (a @ c # b) c = Split a c @ Split b c"
  by (induction a) (auto split: list.splits simp: Split_not_Nil)

lemma Split_snoc: "Split (a @ [c]) c = Split a c @ [[]]"
  using Split_append [of a c "[]"] by simp

section \<open>The scan of getsmaps\<close>

lemma getsmaps_loop_stop: "getsmaps_loop U (pre @ [] # post) st = getsmaps_loop U pre st"
  by (induction pre arbitrary: st) (auto split: sum.splits)

lemma getsmaps_loop_body_lines:
  "getsmaps_loop U ls st = getsmaps_loop U (takeWhile (\<lambda>l. l \<noteq> []) ls) st"
  by (induction ls arbitrary: st) (auto split: sum.splits)

lemma getsmaps_line_header:
  assumes "Fields U l \<noteq> []" and "\<not> counter_line U l"
  shows "getsmaps_line U l (start, pm) =
           Inr (spec_start U l, AList.update (spec_start U l) [] pm)"
  using assms by (auto simp: getsmaps_line_def counter_line_def spec_start_def hd_Split Let_def)

lemma getsmaps_line_counter:
  assumes "counter_line U l" and "counter_ok U l" and "map_of pm start = Some m"
  shows "getsmaps_line U l (start, pm) =
           Inr (start, AList.update start
                  (AList.update (fst (spec_counter U l)) (snd (spec_counter U l)) m) pm)"
  using assms
  by (auto simp: getsmaps_line_def counter_line_def counter_ok_def spec_counter_def
        parseOrZero_def Let_def)

lemma loop_counters:
  assumes "list_all (\<lambda>l. l \<noteq> [] \<and> counter_line U l \<and> counter_ok U l) cls"
    and "map_of pm start = Some m"
  shows "getsmaps_loop U (cls @ rest) (start, pm) =
           getsmaps_loop U rest
             (start, AList.update start (counter_set (map (spec_counter U) cls) m) pm)"
  using assms
proof (induction cls arbitrary: m pm)
  case Nil
  then show ?case by (simp add: counter_set_def update_triv)
next
  case (Cons l cls)
  let ?m' = "AList.update (fst (spec_counter U l)) (snd (spec_counter U l)) m"
  let ?pm' = "AList.update start ?m' pm"
  from Cons.prems have l: "l \<noteq> []" "counter_line U l" "counter_ok U l"
    and rest: "list_all (\<lambda>l. l \<noteq> [] \<and> counter_line U l \<and> counter_ok U l) cls"
    by simp_all
  have step: "getsmaps_line U l (start, pm) = Inr (start, ?pm')"
    using getsmaps_line_counter [OF l(2) l(3) Cons.prems(2)] .
  have look: "map_of ?pm' start = Some ?m'"
    by (simp add: update_conv')
  show ?case
    using l(1) step Cons.IH [OF rest look] by (simp add: counter_set_def)
qed

lemma loop_blocks:
  assumes "list_all (\<lambda>l. l \<noteq> [] \<and> counter_ok U l) ls"
    and "case ls of [] \<Rightarrow> True | l # x \<Rightarrow> \<not> counter_line U l"
  shows "\<exists>start'. getsmaps_loop U ls (start, pm) =
           Inr (start', fold add_block (spec_blocks U ls) pm)"
  using assms
proof (induction U ls arbitrary: start pm rule: spec_blocks.induct)
  case (1 U)
  then show ?case by simp
next
  case (2 U l ls)
  let ?cls = "takeWhile (counter_line U) ls"
  let ?rest = "dropWhile (counter_line U) ls"
  let ?a = "spec_start U l"
  from "2.prems" have l: "l \<noteq> []" "counter_ok U l" "\<not> counter_line U l"
    and ls: "list_all (\<lambda>l. l \<noteq> [] \<and> counter_ok U l) ls"
    by simp_all
  from l have f: "Fields U l \<noteq> []" by (simp add: counter_ok_def)
  have head: "getsmaps_line U l (start, pm) = Inr (?a, AList.update ?a [] pm)"
    using getsmaps_line_header [OF f l(3)] .
  have cls: "list_all (\<lambda>l. l \<noteq> [] \<and> counter_line U l \<and> counter_ok U l) ?cls"
    using ls by (induction ls) (auto)
  have rest: "list_all (\<lambda>l. l \<noteq> [] \<and> counter_ok U l) ?rest"
    using ls by (induction ls) (auto)
  have first: "case ?rest of [] \<Rightarrow> True | l # x \<Rightarrow> \<not> counter_line U l"
    by (auto split: list.splits simp: dropWhile_eq_Cons_conv)
  have "getsmaps_loop U (?cls @ ?rest) (?a, AList.update ?a [] pm) =
          getsmaps_loop U ?rest
            (?a, AList.update ?a (counter_set (map (spec_counter U) ?cls) []) (AList.update ?a [] pm))"
    by (rule loop_counters [OF cls]) (simp add: update_conv')
  then have mid: "getsmaps_loop U ls (?a, AList.update ?a [] pm) =
          getsmaps_loop U ?rest (?a, add_block (?a, map (spec_counter U) ?cls) pm)"
    by (simp add: add_block_def)
  from "2.IH" [OF rest first] obtain start' where
    "getsmaps_loop U ?rest (?a, add_block (?a, map (spec_counter U) ?cls) pm) =
       Inr (start', fold add_block (spec_blocks U ?rest) (add_block (?a, map (spec_counter U) ?cls) pm))"
    by blast
  with l(1) head mid show ?case by simp
qed


section \<open>From the parsed map to the sums of memsizes\<close>

lemma update_fresh: "k \<notin> fst ` set al \<Longrightarrow> AList.update k v al = al @ [(k, v)]"
  by (induction al) auto

lemma map_of_counter_set: "map_of (counter_set cs m) = map_of m ++ map_of (rev cs)"
proof (induction cs arbitrary: m)
  case Nil
  then show ?case by (simp add: counter_set_def)
next
  case (Cons kv cs)
  have "counter_set (kv # cs) m = counter_set cs (AList.update (fst kv) (snd kv) m)"
    by (simp add: counter_set_def)
  then show ?case
    using Cons.IH [of "AList.update (fst kv) (snd kv) m"]
    by (cases kv) (auto simp: update_conv' map_add_def fun_eq_iff split: option.splits)
qed

lemma lookup0_counter_set: "lookup0 (counter_set (snd b) []) k = block_counter b k"
  by (simp add: lookup0_def block_counter_def map_of_counter_set)


lemma memsizes_loop_entries:
  "memsizes_loop (map entry bs) (r, p, u) =
     (r + sum_list (map (\<lambda>b. block_counter b ''rss'') bs),
      p + sum_list (map (\<lambda>b. block_counter b ''pss'') bs),
      u + sum_list (map (\<lambda>b. block_counter b ''private_clean'' + block_counter b ''private_dirty'') bs))"
  by (induction bs arbitrary: r p u) (simp_all add: entry_def lookup0_counter_set add.assoc)


lemma memsizes_loop_sums:
  "memsizes_loop pm (r, p, u) =
     (r + sum_list (map (\<lambda>e. lookup0 (snd e) ''rss'') pm),
      p + sum_list (map (\<lambda>e. lookup0 (snd e) ''pss'') pm),
      u + sum_list (map (\<lambda>e. lookup0 (snd e) ''private_clean'' + lookup0 (snd e) ''private_dirty'') pm))"
  by (induction pm arbitrary: r p u) (auto simp: add.assoc)

lemma sum_list_map_mset:
  fixes f :: "'a \<Rightarrow> goint"
  shows "mset xs = mset ys \<Longrightarrow> sum_list (map f xs) = sum_list (map f ys)"
  by (metis mset_map sum_mset_sum_list)

lemma memsizes_loop_range_order:
  "mset pm = mset pm' \<Longrightarrow> memsizes_loop pm acc = memsizes_loop pm' acc"
  by (cases acc) (simp add: memsizes_loop_sums sum_list_map_mset [of pm pm'])

lemma distinct_fold_add_block:
  "distinct (map fst pm) \<Longrightarrow> distinct (map fst (fold add_block bs pm))"
  by (induction bs arbitrary: pm) (simp_all add: add_block_def distinct_update)

lemma map_of_fold_add_block:
  "map_of (fold add_block bs pm) = map_of pm ++ map_of (rev (map entry bs))"
proof (induction bs arbitrary: pm)
  case Nil
  then show ?case by simp
next
  case (Cons b bs)
  show ?case
    using Cons.IH [of "add_block b pm"]
    by (auto simp: add_block_def entry_def update_conv' map_add_def fun_eq_iff split: option.splits)
qed

lemma keys_last_blocks: "fst ` set (last_blocks bs) = fst ` set bs"
  by (induction bs) auto

lemma distinct_last_blocks: "distinct (map fst (last_blocks bs))"
proof (induction bs)
  case Nil
  then show ?case by simp
next
  case (Cons b bs)
  then show ?case using keys_last_blocks [of bs] by auto
qed

lemma map_of_last_blocks:
  "map_of (map entry (last_blocks bs)) = map_of (rev (map entry bs))"
proof (induction bs)
  case Nil
  then show ?case by simp
next
  case (Cons b bs)
  have keys: "fst ` set (rev (map entry bs)) = fst ` set bs"
    by (force simp: entry_def)
  obtain v where e: "entry b = (fst b, v)"
    by (simp add: entry_def)
  show ?case
  proof (cases "fst b \<in> fst ` set bs")
    case True
    then have "map_of (rev (map entry bs)) (fst b) \<noteq> None"
      using keys by (simp add: map_of_eq_None_iff)
    with True Cons.IH e show ?thesis
      by (auto simp: map_add_def fun_eq_iff split: option.splits)
  next
    case False
    then have "map_of (rev (map entry bs)) (fst b) = None"
      using keys by (simp add: map_of_eq_None_iff)
    with False Cons.IH e show ?thesis
      by (auto simp: map_add_def fun_eq_iff split: option.splits)
  qed
qed

lemma last_blocks_distinct: "distinct (map fst bs) \<Longrightarrow> last_blocks bs = bs"
  by (induction bs) auto

lemma mset_fold_add_block:
  "mset (fold add_block bs []) = mset (map entry (last_blocks bs))"
proof -
  have d1: "distinct (map fst (fold add_block bs []))"
    by (rule distinct_fold_add_block) simp
  have d2: "distinct (map fst (map entry (last_blocks bs)))"
    using distinct_last_blocks [of bs] by (simp add: entry_def comp_def)
  have "map_of (fold add_block bs []) = map_of (map entry (last_blocks bs))"
    by (simp add: map_of_fold_add_block map_of_last_blocks)
  then have "set (fold add_block bs []) = set (map entry (last_blocks bs))"
    using map_of_inject_set [OF d1 d2] by simp
  moreover have "distinct (fold add_block bs [])" "distinct (map entry (last_blocks bs))"
    using d1 d2 distinct_map by blast+
  ultimately show ?thesis
    using set_eq_iff_mset_eq_distinct by blast
qed

lemma getsmaps_blocks:
  assumes "well_formed U smaps"
  shows "getsmaps U smaps = Inr (fold add_block (spec_blocks U (body_lines smaps)) [])"
proof -
  have ne: "list_all (\<lambda>l. l \<noteq> []) (body_lines smaps)"
    unfolding body_lines_def list_all_iff by (auto dest: set_takeWhileD)
  with assms have all: "list_all (\<lambda>l. l \<noteq> [] \<and> counter_ok U l) (body_lines smaps)"
    by (simp add: well_formed_def list_all_iff)
  from assms have first: "case body_lines smaps of [] \<Rightarrow> True | l # x \<Rightarrow> \<not> counter_line U l"
    by (simp add: well_formed_def)
  from loop_blocks [OF all first] obtain start' where
    "getsmaps_loop U (body_lines smaps) ([], []) =
       Inr (start', fold add_block (spec_blocks U (body_lines smaps)) [])"
    by blast
  then show ?thesis
    using getsmaps_loop_body_lines [of U "Split smaps CHR 0x0A" "([], [])"]
    by (simp add: getsmaps_def body_lines_def)
qed

lemma memsizes_last_blocks:
  assumes "well_formed U smaps"
  shows "memsizes U smaps = Inr (spec_totals (last_blocks (spec_blocks U (body_lines smaps))))"
proof -
  let ?bs = "spec_blocks U (body_lines smaps)"
  have "memsizes U smaps = Inr (memsizes_loop (fold add_block ?bs []) (0, 0, 0))"
    using getsmaps_blocks [OF assms] by (simp add: memsizes_def)
  also have "memsizes_loop (fold add_block ?bs []) (0, 0, 0) =
      memsizes_loop (map entry (last_blocks ?bs)) (0, 0, 0)"
    by (rule memsizes_loop_range_order) (rule mset_fold_add_block)
  also have "\<dots> = spec_totals (last_blocks ?bs)"
    by (simp add: memsizes_loop_entries spec_totals_def)
  finally show ?thesis .
qed

lemma spec_totals_mset: "mset bs = mset bs' \<Longrightarrow> spec_totals bs = spec_totals bs'"
  by (simp add: spec_totals_def sum_list_map_mset [of bs bs'])


section \<open>Evaluation on the sample inputs\<close>

lemmas eval_strings = Fields_def isASCII_def asciiSpace_def ToLower_def TrimRight_def
  ascii_lower_def Atoi_def ParseInt_def ParseUint_def digit_val_def maxUint64_def Let_def

lemmas eval_getsmaps = getsmaps_def getsmaps_line_def eval_strings

lemmas eval_spec = body_lines_def counter_line_def counter_ok_def spec_start_def
  spec_counter_def parseOrZero_def well_formed_def block_counter_def spec_totals_def

lemma cat_dup_blocks:
  "spec_blocks U (body_lines (cat_block @ dup_block)) =
     [(''08048000'', [(''rss'', 4), (''pss'', 2), (''private_clean'', 0), (''private_dirty'', 4)]),
      (''08048000'', [(''rss'', 16), (''private_dirty'', 1)])]"
  by (simp add: cat_block_def dup_block_def eval_spec eval_strings)

lemma cat_libc_blocks:
  "spec_blocks U (body_lines (cat_block @ libc_block)) =
     [(''08048000'', [(''rss'', 4), (''pss'', 2), (''private_clean'', 0), (''private_dirty'', 4)]),
      (''b7e00000'', [(''rss'', 16), (''private_dirty'', 1)])]"
  by (simp add: cat_block_def libc_block_def eval_spec eval_strings)

lemma libc_cat_blocks:
  "spec_blocks U (body_lines (libc_block @ cat_block)) =
     [(''b7e00000'', [(''rss'', 16), (''private_dirty'', 1)]),
      (''08048000'', [(''rss'', 4), (''pss'', 2), (''private_clean'', 0), (''private_dirty'', 4)])]"
  by (simp add: cat_block_def libc_block_def eval_spec eval_strings)

lemma wf_cat_dup: "well_formed U (cat_block @ dup_block)"
  by (simp add: cat_block_def dup_block_def eval_spec eval_strings)

lemma wf_cat_libc: "well_formed U (cat_block @ libc_block)"
  by (simp add: cat_block_def libc_block_def eval_spec eval_strings)

lemma wf_libc_cat: "well_formed U (libc_block @ cat_block)"
  by (simp add: cat_block_def libc_block_def eval_spec eval_strings)

lemma memsizes_cat_dup: "memsizes U (cat_block @ dup_block) = Inr (16, 0, 1)"
  by (simp add: cat_block_def dup_block_def memsizes_def lookup0_def eval_getsmaps)

section \<open>C1: the aggregation\<close>

text \<open>
  C1, as stated, fails: the text made of \<open>cat_block\<close> and \<open>dup_block\<close> is well-formed, its
  two blocks share the starting address \<open>08048000\<close>, and the sums over both blocks are
  \<open>(20, 2, 5)\<close>; \<open>memsizes\<close> returns \<open>(16, 0, 1)\<close>, the counters of the second block alone,
  because the parser's map is keyed by the starting address.
\<close>

theorem memsizes_duplicate_start_counterexample:
  "well_formed no_unicode (cat_block @ dup_block) \<and>
   spec_totals (spec_blocks no_unicode (body_lines (cat_block @ dup_block))) = (20, 2, 5) \<and>
   memsizes no_unicode (cat_block @ dup_block) = Inr (16, 0, 1) \<and>
   memsizes no_unicode (cat_block @ dup_block) \<noteq>
     Inr (spec_totals (spec_blocks no_unicode (body_lines (cat_block @ dup_block))))"
  by (simp add: wf_cat_dup cat_dup_blocks memsizes_cat_dup spec_totals_def block_counter_def)

text \<open>
  C1, amended: for every well-formed mapping-accounting text \<open>memsizes\<close> returns (it never
  panics) the sums of \<open>rss\<close>, of \<open>pss\<close> and of \<open>private_clean + private_dirty\<close>, in Go's
  \<open>int\<close> arithmetic, over the blocks that no later block with the same starting address
  replaces; a counter missing from a block counts 0. When the starting addresses are
  pairwise distinct these are the sums over all blocks, and every well-formed text with
  the same blocks in another order gives the same result.
\<close>

theorem memsizes_sums_last_blocks:
  assumes "well_formed U smaps"
  shows "memsizes U smaps = Inr (spec_totals (last_blocks (spec_blocks U (body_lines smaps)))) \<and>
         (distinct (map fst (spec_blocks U (body_lines smaps))) \<longrightarrow>
            memsizes U smaps = Inr (spec_totals (spec_blocks U (body_lines smaps))) \<and>
            (\<forall>smaps'. well_formed U smaps' \<and>
                 mset (spec_blocks U (body_lines smaps')) = mset (spec_blocks U (body_lines smaps))
               \<longrightarrow> memsizes U smaps' = memsizes U smaps))"
proof -
  let ?bs = "spec_blocks U (body_lines smaps)"
  have total: "memsizes U smaps = Inr (spec_totals (last_blocks ?bs))"
    using memsizes_last_blocks [OF assms] .
  have "memsizes U smaps' = memsizes U smaps"
    if d: "distinct (map fst ?bs)" and wf: "well_formed U smaps'"
      and perm: "mset (spec_blocks U (body_lines smaps')) = mset ?bs" for smaps'
  proof -
    let ?bs' = "spec_blocks U (body_lines smaps')"
    have "mset (map fst ?bs') = mset (map fst ?bs)"
      using perm by (metis mset_map)
    then have "distinct (map fst ?bs')"
      using d mset_eq_imp_distinct_iff by blast
    then have "memsizes U smaps' = Inr (spec_totals ?bs')"
      using memsizes_last_blocks [OF wf] by (simp add: last_blocks_distinct)
    also have "spec_totals ?bs' = spec_totals ?bs"
      using perm by (rule spec_totals_mset)
    finally show ?thesis
      using total d by (simp add: last_blocks_distinct)
  qed
  with total show ?thesis
    by (auto simp: last_blocks_distinct)
qed

text \<open>
  The theorem at the text of \<open>cat_block\<close> and \<open>libc_block\<close> (which has no \<open>Pss\<close> line), in
  both orders.
\<close>

theorem memsizes_sums_last_blocks_witness:
  "well_formed no_unicode (cat_block @ libc_block) \<and>
   distinct (map fst (spec_blocks no_unicode (body_lines (cat_block @ libc_block)))) \<and>
   memsizes no_unicode (cat_block @ libc_block) = Inr (20, 2, 5) \<and>
   well_formed no_unicode (libc_block @ cat_block) \<and>
   memsizes no_unicode (libc_block @ cat_block) = Inr (20, 2, 5)"
proof -
  have wf: "well_formed no_unicode (cat_block @ libc_block)"
    by (rule wf_cat_libc)
  have wf': "well_formed no_unicode (libc_block @ cat_block)"
    by (rule wf_libc_cat)
  have d: "distinct (map fst (spec_blocks no_unicode (body_lines (cat_block @ libc_block))))"
    by (simp add: cat_libc_blocks)
  have perm: "mset (spec_blocks no_unicode (body_lines (libc_block @ cat_block))) =
      mset (spec_blocks no_unicode (body_lines (cat_block @ libc_block)))"
    by (simp add: cat_libc_blocks libc_cat_blocks)
  note inst = memsizes_sums_last_blocks [OF wf]
  from inst d have sum: "memsizes no_unicode (cat_block @ libc_block) =
      Inr (spec_totals (spec_blocks no_unicode (body_lines (cat_block @ libc_block))))"
    by blast
  from inst d wf' perm have "memsizes no_unicode (libc_block @ cat_block) =
      memsizes no_unicode (cat_block @ libc_block)"
    by blast
  with sum wf wf' d show ?thesis
    by (simp add: cat_libc_blocks spec_totals_def block_counter_def)
qed

section \<open>C2: two identical blocks\<close>

lemma memsizes_cat: "memsizes U cat_block = Inr (4, 2, 4)"
  by (simp add: cat_block_def memsizes_def lookup0_def eval_getsmaps)

lemma getsmaps_cat_cat:
  "getsmaps U (cat_block @ cat_block) =
     Inr [(''08048000'', [(''rss'', 4), (''pss'', 2), (''private_clean'', 0), (''private_dirty'', 4)])]"
  by (simp add: cat_block_def eval_getsmaps)

lemma memsizes_cat_cat: "memsizes U (cat_block @ cat_block) = Inr (4, 2, 4)"
  by (simp add: memsizes_def getsmaps_cat_cat lookup0_def)

text \<open>
  C2, as stated, fails: for the text of two identical copies of \<open>cat_block\<close> the pipeline
  does not yield \<open>(rss=8, pss=4, uss=8)\<close>.
\<close>

theorem two_identical_blocks_counterexample:
  "memsizes no_unicode (cat_block @ cat_block) \<noteq> Inr (8, 4, 8)"
  by (simp add: memsizes_cat_cat)

text \<open>
  C2, amended: one such block yields \<open>(rss=4, pss=2, uss=4)\<close>, and two identical blocks
  yield \<open>(rss=4, pss=2, uss=4)\<close> as well: both have the starting address \<open>08048000\<close>, so
  \<open>getsmaps\<close> returns a map with the single entry of the second block, which
  \<open>memsizes\<close> sums.
\<close>

theorem two_identical_blocks:
  "memsizes U cat_block = Inr (4, 2, 4) \<and>
   getsmaps U (cat_block @ cat_block) =
     Inr [(''08048000'', [(''rss'', 4), (''pss'', 2), (''private_clean'', 0), (''private_dirty'', 4)])] \<and>
   memsizes U (cat_block @ cat_block) = Inr (4, 2, 4)"
  by (simp add: memsizes_cat getsmaps_cat_cat memsizes_cat_cat)

section \<open>C3: the process name\<close>

text \<open>
  C3 on the status line \<open>1 (a)b) S 0 1 1\<close> of a process named \<open>a)b\<close>: \<open>snapshotPid\<close>
  searches the first \<open>)\<close> (\<open>strings.Index\<close> for both parentheses) and returns the name
  \<open>a\<close>; the substring strictly between the first \<open>(\<close> and the last \<open>)\<close> is \<open>a)b\<close>.
\<close>

theorem snapshotPid_name_first_close:
  "map_sum id (map_sum id Name) (snapshotPid no_unicode proc1 ''1'') = Inr (Inr ''a'') \<and>
   spec_name ''1 (a)b) S 0 1 1'' = ''a)b''"
  by (simp add: snapshotPid_def proc1_def slice_def memsizes_cat spec_name_def LastIndex_def)

section \<open>The table\<close>

lemma makeCSV_loop_fills:
  "c + length allpids \<le> length d \<Longrightarrow>
     makeCSV_loop allpids d c =
       Inr (take c d @ map csv_row allpids @ drop (c + length allpids) d)"
proof (induction allpids arbitrary: d c)
  case Nil
  then show ?case by simp
next
  case (Cons e allpids)
  obtain pid entry where e: "e = (pid, entry)" by (cases e)
  let ?d = "d[c := csv_row e]"
  from Cons.prems have c: "c < length d" and le: "Suc c + length allpids \<le> length ?d"
    by simp_all
  have "take (Suc c) ?d = take c d @ [csv_row e]"
    using c by (simp add: take_Suc_conv_app_nth)
  moreover have "drop (Suc c + length allpids) ?d = drop (Suc c + length allpids) d"
    by simp
  ultimately show ?case
    using Cons.IH [OF le] c e by (simp add: csv_row_def)
qed

lemma makeCSV_rows: "makeCSV allpids = Inr (map csv_row allpids)"
  using makeCSV_loop_fills [of 0 allpids "replicate (length allpids) []"]
  by (simp add: makeCSV_def)

lemma set_update_subset: "set (AList.update k v al) \<subseteq> insert (k, v) (set al)"
  by (induction al) auto

lemma set_delete_subset: "set (AList.delete k al) \<subseteq> set al"
  by (induction al) auto

lemma body_user_records:
  assumes "user_records t" and "snapshotPids_body U fs pid t = Inr t'"
  shows "user_records t'"
proof (cases "snapshotPid U fs pid")
  case (Inl p)
  with assms show ?thesis by (simp add: snapshotPids_body_def)
next
  case (Inr r)
  show ?thesis
  proof (cases r)
    case (Inl err)
    with Inr assms(2) have "t' = AList.delete pid t \<or> t' = t"
      by (auto simp: snapshotPids_body_def split: if_splits)
    with assms(1) show ?thesis
      using set_delete_subset [of pid t] by (auto simp: user_records_def list_all_iff)
  next
    case (Inr pd)
    with \<open>snapshotPid U fs pid = Inr r\<close> assms(2)
    have "(t' = AList.update pid pd t \<and> cmdline pd \<noteq> []) \<or> t' = t"
      by (auto simp: snapshotPids_body_def isKernelProc_def split: if_splits)
    with assms(1) show ?thesis
      using set_update_subset [of pid pd t] by (auto simp: user_records_def list_all_iff)
  qed
qed

lemma snapshotPids_user_records:
  "user_records t \<Longrightarrow> snapshotPids U fs pids t = Inr t' \<Longrightarrow> user_records t'"
proof (induction pids arbitrary: t)
  case Nil
  then show ?case by simp
next
  case (Cons pid pids)
  from Cons.prems(2) obtain t1 where
    one: "snapshotPids_body U fs pid t = Inr t1" and rest: "snapshotPids U fs pids t1 = Inr t'"
    by (auto split: sum.splits)
  from body_user_records [OF Cons.prems(1) one] rest show ?case
    by (rule Cons.IH)
qed

lemma run_cycles_user_records:
  "user_records t \<Longrightarrow> run_cycles U sched t = Inr t' \<Longrightarrow> user_records t'"
proof (induction sched arbitrary: t)
  case Nil
  then show ?case by simp
next
  case (Cons c sched)
  obtain fs pids where c: "c = (fs, pids)" by (cases c)
  with Cons.prems(2) obtain t1 where
    one: "snapshotPids U fs pids t = Inr t1" and rest: "run_cycles U sched t1 = Inr t'"
    by (auto split: sum.splits)
  from snapshotPids_user_records [OF Cons.prems(1) one] rest show ?case
    by (rule Cons.IH)
qed

lemma snapshotPid_proc1:
  "snapshotPid U proc1 ''1'' =
     Inr (Inr \<lparr>cmdline = ''/sbin/init'', Name = ''a'', RSS = 4, PSS = 2, USS = 4\<rparr>)"
  by (simp add: snapshotPid_def proc1_def slice_def memsizes_cat)

lemma memsizes_empty: "memsizes U [] = Inr (0, 0, 0)"
  by (simp add: memsizes_def getsmaps_def)

lemma snapshotPid_proc2_kernel:
  "snapshotPid U proc2 ''2'' =
     Inr (Inr \<lparr>cmdline = [], Name = ''kthreadd'', RSS = 0, PSS = 0, USS = 0\<rparr>)"
  by (simp add: snapshotPid_def proc2_def slice_def memsizes_empty)

lemma snapshotPid_proc2_denied: "snapshotPid U proc2 ''1'' = Inr (Inl ErrPermission)"
  by (simp add: snapshotPid_def proc2_def)

lemma snapshotPid_proc2_gone: "snapshotPid U proc2 ''7'' = Inr (Inl ErrNotExist)"
  by (simp add: snapshotPid_def proc2_def)

section \<open>C4: failed probes\<close>

text \<open>
  C4: in one iteration of the sampler's loop for a process id, a probe that fails with an
  error that \<open>os.IsNotExist\<close> recognises removes the record of that id from the table; a
  probe that fails with any other error leaves the table exactly as it was; and whatever
  the outcome of the probe, the entry of every other id is unchanged.
\<close>

theorem snapshotPids_body_failure:
  "(snapshotPid U fs pid = Inr (Inl err) \<and> IsNotExist err \<longrightarrow>
      snapshotPids_body U fs pid allpids = Inr (AList.delete pid allpids) \<and>
      map_of (AList.delete pid allpids) pid = None \<and>
      pid \<notin> fst ` set (AList.delete pid allpids)) \<and>
   (snapshotPid U fs pid = Inr (Inl err) \<and> \<not> IsNotExist err \<longrightarrow>
      snapshotPids_body U fs pid allpids = Inr allpids) \<and>
   (snapshotPids_body U fs pid allpids = Inr allpids' \<and> q \<noteq> pid \<longrightarrow>
      map_of allpids' q = map_of allpids q)"
proof (intro conjI impI)
  assume "snapshotPid U fs pid = Inr (Inl err) \<and> IsNotExist err"
  then show "snapshotPids_body U fs pid allpids = Inr (AList.delete pid allpids)"
    by (simp add: snapshotPids_body_def)
next
  show "map_of (AList.delete pid allpids) pid = None"
    by (simp add: delete_conv')
next
  show "pid \<notin> fst ` set (AList.delete pid allpids)"
    by (rule delete_notin_dom)
next
  assume "snapshotPid U fs pid = Inr (Inl err) \<and> \<not> IsNotExist err"
  then show "snapshotPids_body U fs pid allpids = Inr allpids"
    by (simp add: snapshotPids_body_def)
next
  assume "snapshotPids_body U fs pid allpids = Inr allpids' \<and> q \<noteq> pid"
  then show "map_of allpids' q = map_of allpids q"
    by (auto simp: snapshotPids_body_def update_conv' delete_conv'
        split: sum.splits if_splits)
qed

text \<open>
  The theorem on the table \<open>two_procs\<close> and the filesystem \<open>proc2\<close>: process 7 is gone and
  its record is removed, process 1 may not be read and the table stays as it is.
\<close>

theorem snapshotPids_body_failure_witness:
  "snapshotPid no_unicode proc2 ''7'' = Inr (Inl ErrNotExist) \<and> IsNotExist ErrNotExist \<and>
   snapshotPids_body no_unicode proc2 ''7'' two_procs =
     Inr [(''1'', \<lparr>cmdline = ''/sbin/init'', Name = ''init'', RSS = 4, PSS = 2, USS = 4\<rparr>)] \<and>
   snapshotPid no_unicode proc2 ''1'' = Inr (Inl ErrPermission) \<and> \<not> IsNotExist ErrPermission \<and>
   snapshotPids_body no_unicode proc2 ''1'' two_procs = Inr two_procs \<and>
   map_of (AList.delete ''7'' two_procs) ''1'' = map_of two_procs ''1''"
proof -
  have gone: "snapshotPid no_unicode proc2 ''7'' = Inr (Inl ErrNotExist) \<and> IsNotExist ErrNotExist"
    by (simp add: snapshotPid_proc2_gone IsNotExist_def)
  have denied: "snapshotPid no_unicode proc2 ''1'' = Inr (Inl ErrPermission) \<and> \<not> IsNotExist ErrPermission"
    by (simp add: snapshotPid_proc2_denied IsNotExist_def)
  from snapshotPids_body_failure [of no_unicode proc2 "''7''" ErrNotExist two_procs
      "AList.delete ''7'' two_procs" "''1''"] gone
  have a: "snapshotPids_body no_unicode proc2 ''7'' two_procs = Inr (AList.delete ''7'' two_procs)"
    and b: "map_of (AList.delete ''7'' two_procs) ''1'' = map_of two_procs ''1''"
    by simp_all
  from snapshotPids_body_failure [of no_unicode proc2 "''1''" ErrPermission two_procs] denied
  have c: "snapshotPids_body no_unicode proc2 ''1'' two_procs = Inr two_procs"
    by blast
  from a b c gone denied show ?thesis
    by (simp add: two_procs_def)
qed

section \<open>C5: kernel processes\<close>

text \<open>
  C5: in every table that a run of the sampler reaches from the empty table, every
  record has a non-empty command line; the CSV rows are the rows of exactly these records
  and the JSON document is the marshalling of exactly this table, so no record with an
  empty command line is rendered. A successful probe that yields an empty command line
  leaves the table as it is.
\<close>

theorem no_kernel_record_stored:
  "(run_cycles U sched [] = Inr allpids \<longrightarrow>
      list_all (\<lambda>e. cmdline (snd e) \<noteq> []) allpids \<and>
      makeCSV allpids = Inr (map csv_row allpids) \<and>
      makeJSON MarshalIndent timestamp allpids =
        (case MarshalIndent \<lparr>Time = timestamp, Pids = allpids\<rparr> of
           None \<Rightarrow> Inl MarshalFailed | Some j \<Rightarrow> Inr j)) \<and>
   (snapshotPid U fs pid = Inr (Inr pd) \<and> cmdline pd = [] \<longrightarrow>
      snapshotPids_body U fs pid t = Inr t \<and> snapshotPids U fs [pid] t = Inr t)"
proof (intro conjI impI)
  assume "run_cycles U sched [] = Inr allpids"
  then have "user_records allpids"
    using run_cycles_user_records [of "[]" U sched allpids] by (simp add: user_records_def)
  then show "list_all (\<lambda>e. cmdline (snd e) \<noteq> []) allpids"
    by (simp add: user_records_def)
next
  show "makeCSV allpids = Inr (map csv_row allpids)"
    by (rule makeCSV_rows)
next
  show "makeJSON MarshalIndent timestamp allpids =
      (case MarshalIndent \<lparr>Time = timestamp, Pids = allpids\<rparr> of
         None \<Rightarrow> Inl MarshalFailed | Some j \<Rightarrow> Inr j)"
    by (simp add: makeJSON_def)
next
  assume a: "snapshotPid U fs pid = Inr (Inr pd) \<and> cmdline pd = []"
  then show "snapshotPids_body U fs pid t = Inr t"
    by (simp add: snapshotPids_body_def isKernelProc_def)
  then show "snapshotPids U fs [pid] t = Inr t"
    by simp
qed

text \<open>
  The theorem on a run of two cycles: the first stores process 1, the second meets the
  kernel thread 2 (skipped), the unreadable process 1 and the missing process 7.
\<close>

theorem no_kernel_record_stored_witness:
  "run_cycles no_unicode [(proc1, [''1'']), (proc2, [''2'', ''1'', ''7''])] [] =
     Inr [(''1'', \<lparr>cmdline = ''/sbin/init'', Name = ''a'', RSS = 4, PSS = 2, USS = 4\<rparr>)] \<and>
   list_all (\<lambda>e. cmdline (snd e) \<noteq> [])
     [(''1'', \<lparr>cmdline = ''/sbin/init'', Name = ''a'', RSS = 4, PSS = 2, USS = 4\<rparr>)] \<and>
   makeCSV [(''1'', \<lparr>cmdline = ''/sbin/init'', Name = ''a'', RSS = 4, PSS = 2, USS = 4\<rparr>)] =
     Inr [[''1'', ''a'', ''4'', ''4'', ''2'']] \<and>
   cmdline \<lparr>cmdline = [], Name = ''kthreadd'', RSS = 0, PSS = 0, USS = 0\<rparr> = [] \<and>
   snapshotPids no_unicode proc2 [''2''] two_procs = Inr two_procs"
proof -
  let ?t = "[(''1'', \<lparr>cmdline = ''/sbin/init'', Name = ''a'', RSS = 4, PSS = 2, USS = 4\<rparr>)]"
  have run: "run_cycles no_unicode [(proc1, [''1'']), (proc2, [''2'', ''1'', ''7''])] [] = Inr ?t"
    by (simp add: snapshotPids_body_def snapshotPid_proc1 snapshotPid_proc2_kernel
        snapshotPid_proc2_denied snapshotPid_proc2_gone isKernelProc_def IsNotExist_def)
  have probe: "snapshotPid no_unicode proc2 ''2'' =
      Inr (Inr \<lparr>cmdline = [], Name = ''kthreadd'', RSS = 0, PSS = 0, USS = 0\<rparr>)"
    by (rule snapshotPid_proc2_kernel)
  note inst = no_kernel_record_stored [of no_unicode
      "[(proc1, [''1'']), (proc2, [''2'', ''1'', ''7''])]" ?t _ _ proc2 "''2''"
      "\<lparr>cmdline = [], Name = ''kthreadd'', RSS = 0, PSS = 0, USS = 0\<rparr>" two_procs]
  from inst run have "list_all (\<lambda>e. cmdline (snd e) \<noteq> []) ?t \<and> makeCSV ?t = Inr (map csv_row ?t)"
    by blast
  moreover from inst probe have "snapshotPids no_unicode proc2 [''2''] two_procs = Inr two_procs"
    by simp
  ultimately show ?thesis
    using run by (simp add: csv_row_def Itoa_def)
qed

section \<open>C6: the empty line\<close>

text \<open>
  C6: when the text has an empty line, \<open>getsmaps\<close> returns what its loop computes from
  the lines before that line alone; in particular a text continued after an empty line
  gives the result of the text before it, whatever follows, and a text that starts with
  an empty line gives the empty map.
\<close>

theorem getsmaps_stops_at_empty_line:
  "(Split smaps CHR 0x0A = pre @ [] # post \<longrightarrow>
      getsmaps U smaps =
        (case getsmaps_loop U pre ([], []) of Inl p \<Rightarrow> Inl p | Inr st \<Rightarrow> Inr (snd st))) \<and>
   getsmaps U (before @ ''\<newline>\<newline>'' @ after) = getsmaps U before \<and>
   getsmaps U (''\<newline>'' @ after) = Inr []"
proof (intro conjI impI)
  assume "Split smaps CHR 0x0A = pre @ [] # post"
  then show "getsmaps U smaps =
      (case getsmaps_loop U pre ([], []) of Inl p \<Rightarrow> Inl p | Inr st \<Rightarrow> Inr (snd st))"
    by (simp add: getsmaps_def getsmaps_loop_stop)
next
  have "Split (before @ ''\<newline>\<newline>'' @ after) CHR 0x0A =
      Split before CHR 0x0A @ [] # Split after CHR 0x0A"
    using Split_append [of before "CHR 0x0A" "CHR 0x0A # after"] by simp
  moreover have "getsmaps_loop U (Split before CHR 0x0A @ [[]]) ([], []) =
      getsmaps_loop U (Split before CHR 0x0A) ([], [])"
    by (rule getsmaps_loop_stop)
  ultimately show "getsmaps U (before @ ''\<newline>\<newline>'' @ after) = getsmaps U before"
    by (simp add: getsmaps_def getsmaps_loop_stop)
next
  show "getsmaps U (''\<newline>'' @ after) = Inr []"
    by (simp add: getsmaps_def)
qed

text \<open>
  The theorem on \<open>cat_block\<close>, an empty line and \<open>libc_block\<close>: the second block is absent
  from the result.
\<close>

theorem getsmaps_stops_at_empty_line_witness:
  "Split (cat_block @ ''\<newline>'' @ libc_block) CHR 0x0A =
     [''08048000-08049000 r-xp ... /bin/cat'', ''Rss: 4 kB'', ''Pss: 2 kB'',
      ''Private_Clean: 0 kB'', ''Private_Dirty: 4 kB''] @ [] #
     [''b7e00000-b7f00000 r--p ... /lib/libc.so'', ''Rss: 16 kB'', ''Private_Dirty: 1 kB'', []] \<and>
   getsmaps no_unicode (cat_block @ ''\<newline>'' @ libc_block) =
     Inr [(''08048000'', [(''rss'', 4), (''pss'', 2), (''private_clean'', 0), (''private_dirty'', 4)])]"
proof -
  let ?pre = "[''08048000-08049000 r-xp ... /bin/cat'', ''Rss: 4 kB'', ''Pss: 2 kB'',
      ''Private_Clean: 0 kB'', ''Private_Dirty: 4 kB'']"
  let ?post = "[''b7e00000-b7f00000 r--p ... /lib/libc.so'', ''Rss: 16 kB'', ''Private_Dirty: 1 kB'', []]"
  have lines: "Split (cat_block @ ''\<newline>'' @ libc_block) CHR 0x0A = ?pre @ [] # ?post"
    by (simp add: cat_block_def libc_block_def)
  have "getsmaps_loop no_unicode ?pre ([], []) =
      Inr (''08048000'', [(''08048000'', [(''rss'', 4), (''pss'', 2), (''private_clean'', 0), (''private_dirty'', 4)])])"
    by (simp add: getsmaps_line_def eval_strings)
  with getsmaps_stops_at_empty_line [of "cat_block @ ''\<newline>'' @ libc_block" ?pre ?post no_unicode] lines
  show ?thesis by simp
qed

section \<open>C7: values that do not parse\<close>

lemma Atoi_syntax_zero: "snd (Atoi v) = Some ErrSyntax \<Longrightarrow> fst (Atoi v) = 0"
  by (auto simp: Atoi_def ParseInt_def Let_def split: prod.splits if_splits)

lemma Atoi_range_bound:
  "snd (Atoi v) = Some ErrRange \<Longrightarrow>
     fst (Atoi v) = 9223372036854775807 \<or> fst (Atoi v) = - 9223372036854775808"
  by (auto simp: Atoi_def ParseInt_def Let_def split: prod.splits if_splits)

lemma digit_val_le: "digit_val c = Some d \<Longrightarrow> d \<le> 9"
  by (auto simp: digit_val_def split: if_splits)

lemma ParseUint_loop_short:
  "\<not> list_all (\<lambda>c. digit_val c \<noteq> None) s \<Longrightarrow> length s \<le> 19 \<Longrightarrow> n < 10 ^ (19 - length s) \<Longrightarrow>
     ParseUint_loop s n = (0, Some ErrSyntax)"
proof (induction s arbitrary: n)
  case Nil
  then show ?case by simp
next
  case (Cons c cs)
  show ?case
  proof (cases "digit_val c")
    case None
    then show ?thesis by simp
  next
    case (Some d)
    let ?k = "18 - length cs"
    from Cons.prems(2) have k: "19 - length (c # cs) = ?k" "19 - length cs = Suc ?k"
      by simp_all
    from Cons.prems(3) k have n: "n < 10 ^ ?k" by simp
    have "(10::nat) ^ ?k \<le> 10 ^ 18"
      by (rule power_increasing) simp_all
    with n have small: "n < 10 ^ 18" by simp
    from n digit_val_le [OF Some] have next_small: "n * 10 + d < 10 ^ Suc ?k"
      by simp
    have "(10::nat) ^ Suc ?k \<le> 10 ^ 19"
      by (rule power_increasing) simp_all
    with next_small have fits: "n * 10 + d < 10 ^ 19" by simp
    from Cons.prems(1) Some have bad: "\<not> list_all (\<lambda>c. digit_val c \<noteq> None) cs"
      by simp
    from Cons.prems(2) have len: "length cs \<le> 19" by simp
    have "ParseUint_loop cs (n * 10 + d) = (0, Some ErrSyntax)"
      using Cons.IH [OF bad len] next_small k by simp
    with Some small fits show ?thesis
      by (simp add: maxUint64_def)
  qed
qed

lemma Atoi_not_numeric_short:
  assumes "\<not> numeric v" and "length v \<le> 19"
  shows "Atoi v = (0, Some ErrSyntax)"
proof (cases "v = []")
  case True
  then show ?thesis by (simp add: Atoi_def ParseInt_def)
next
  case False
  let ?ds = "if hd v = CHR ''+'' \<or> hd v = CHR ''-'' then tl v else v"
  have len: "length ?ds \<le> 19" using assms(2) by auto
  have "ParseUint ?ds = (0, Some ErrSyntax)"
  proof (cases "?ds = []")
    case True
    then show ?thesis by (simp add: ParseUint_def)
  next
    case ne: False
    with assms(1) False have "\<not> list_all (\<lambda>c. digit_val c \<noteq> None) ?ds"
      by (simp add: numeric_def Let_def)
    from ParseUint_loop_short [OF this len, of 0] ne show ?thesis
      by (simp add: ParseUint_def)
  qed
  with False show ?thesis
    by (simp add: Atoi_def ParseInt_def Let_def)
qed

lemma getsmaps_bad_block:
  "getsmaps U bad_block = Inr [(''08048000'', [(''rss'', 9223372036854775807)])]"
  by (simp add: bad_block_def eval_getsmaps)

text \<open>
  C7, as stated, fails: the value field \<open>99999999999999999999x\<close> of the counter line of
  \<open>bad_block\<close> is not numeric, \<open>Atoi\<close> rejects it with a range error at the twentieth
  digit, before it reaches the letter, and the parser stores 9223372036854775807 for
  \<open>rss\<close>, not 0. The twenty digits alone are rejected with the same value.
\<close>

theorem getsmaps_non_numeric_value_counterexample:
  "Fields no_unicode ''Rss: 99999999999999999999x kB'' = [''Rss:'', ''99999999999999999999x'', ''kB''] \<and>
   \<not> numeric ''99999999999999999999x'' \<and>
   Atoi ''99999999999999999999x'' = (9223372036854775807, Some ErrRange) \<and>
   Atoi ''99999999999999999999'' = (9223372036854775807, Some ErrRange) \<and>
   getsmaps no_unicode bad_block = Inr [(''08048000'', [(''rss'', 9223372036854775807)])] \<and>
   lookup0 [(''rss'', 9223372036854775807)] ''rss'' \<noteq> 0"
  by (simp add: getsmaps_bad_block lookup0_def numeric_def eval_strings)

text \<open>
  C7, amended: for every counter line inside a block (the inner map of the current
  starting address exists) whose value field \<open>Atoi\<close> rejects, the loop body returns
  normally with no error, stores the value \<open>Atoi\<close> returns for that counter and changes no
  other counter of the block and no other block. The stored value is 0 when the error is
  a syntax error, in particular for every non-numeric field of at most 19 bytes, and
  9223372036854775807 or -9223372036854775808 when it is a range error.
\<close>

theorem getsmaps_line_rejected_value:
  assumes "counter_line U l" and "2 \<le> length (Fields U l)"
    and "map_of pm start = Some m"
    and "snd (Atoi (Fields U l ! 1)) = Some e"
  shows "getsmaps_line U l (start, pm) =
           Inr (start, AList.update start
             (AList.update (ToLower U (TrimRight (hd (Fields U l)) '':''))
                (fst (Atoi (Fields U l ! 1))) m) pm) \<and>
         (e = ErrSyntax \<longrightarrow> fst (Atoi (Fields U l ! 1)) = 0) \<and>
         (e = ErrRange \<longrightarrow> fst (Atoi (Fields U l ! 1)) = 9223372036854775807 \<or>
                             fst (Atoi (Fields U l ! 1)) = - 9223372036854775808) \<and>
         (\<not> numeric (Fields U l ! 1) \<and> length (Fields U l ! 1) \<le> 19 \<longrightarrow>
            fst (Atoi (Fields U l ! 1)) = 0) \<and>
         (k \<noteq> ToLower U (TrimRight (hd (Fields U l)) '':'') \<longrightarrow>
            map_of (AList.update (ToLower U (TrimRight (hd (Fields U l)) '':''))
                      (fst (Atoi (Fields U l ! 1))) m) k = map_of m k) \<and>
         (a \<noteq> start \<longrightarrow>
            map_of (AList.update start
                      (AList.update (ToLower U (TrimRight (hd (Fields U l)) '':''))
                         (fst (Atoi (Fields U l ! 1))) m) pm) a = map_of pm a)"
proof (intro conjI impI)
  show "getsmaps_line U l (start, pm) =
      Inr (start, AList.update start
        (AList.update (ToLower U (TrimRight (hd (Fields U l)) '':''))
           (fst (Atoi (Fields U l ! 1))) m) pm)"
    using assms(1-3) by (auto simp: getsmaps_line_def counter_line_def Let_def)
next
  assume "e = ErrSyntax"
  with assms(4) show "fst (Atoi (Fields U l ! 1)) = 0"
    by (simp add: Atoi_syntax_zero)
next
  assume "e = ErrRange"
  with assms(4) show "fst (Atoi (Fields U l ! 1)) = 9223372036854775807 \<or>
      fst (Atoi (Fields U l ! 1)) = - 9223372036854775808"
    by (simp add: Atoi_range_bound)
next
  assume "\<not> numeric (Fields U l ! 1) \<and> length (Fields U l ! 1) \<le> 19"
  then show "fst (Atoi (Fields U l ! 1)) = 0"
    by (simp add: Atoi_not_numeric_short)
next
  assume "k \<noteq> ToLower U (TrimRight (hd (Fields U l)) '':'')"
  then show "map_of (AList.update (ToLower U (TrimRight (hd (Fields U l)) '':''))
      (fst (Atoi (Fields U l ! 1))) m) k = map_of m k"
    by (simp add: update_conv')
next
  assume "a \<noteq> start"
  then show "map_of (AList.update start
      (AList.update (ToLower U (TrimRight (hd (Fields U l)) '':''))
         (fst (Atoi (Fields U l ! 1))) m) pm) a = map_of pm a"
    by (simp add: update_conv')
qed

text \<open>
  The theorem on the line \<open>Rss: 4x kB\<close> in a block that holds \<open>rss = 7\<close> and \<open>pss = 2\<close>.
\<close>

theorem getsmaps_line_rejected_value_witness:
  "counter_line no_unicode ''Rss: 4x kB'' \<and>
   Fields no_unicode ''Rss: 4x kB'' = [''Rss:'', ''4x'', ''kB''] \<and>
   Atoi ''4x'' = (0, Some ErrSyntax) \<and> \<not> numeric ''4x'' \<and>
   getsmaps_line no_unicode ''Rss: 4x kB''
       (''08048000'', [(''08048000'', [(''rss'', 7), (''pss'', 2)])]) =
     Inr (''08048000'', [(''08048000'', [(''rss'', 0), (''pss'', 2)])])"
proof -
  have f: "Fields no_unicode ''Rss: 4x kB'' = [''Rss:'', ''4x'', ''kB'']"
    by (simp add: eval_strings)
  have c: "counter_line no_unicode ''Rss: 4x kB''" and n: "2 \<le> length (Fields no_unicode ''Rss: 4x kB'')"
    by (simp_all add: counter_line_def f)
  have m: "map_of [(''08048000'', [(''rss'', 7), (''pss'', 2)])] ''08048000'' = Some [(''rss'', 7::goint), (''pss'', 2)]"
    by simp
  have v: "Atoi ''4x'' = (0, Some ErrSyntax)"
    by (simp add: eval_strings)
  then have e: "snd (Atoi (Fields no_unicode ''Rss: 4x kB'' ! 1)) = Some ErrSyntax"
    by (simp add: f)
  have nn: "\<not> numeric ''4x''"
    by (simp add: numeric_def digit_val_def)
  from getsmaps_line_rejected_value [OF c n m e] f v c nn show ?thesis
    by (simp add: eval_strings)
qed

section \<open>C8: the CSV export\<close>

text \<open>
  C8: for every table \<open>makeCSV\<close> returns one row per entry of the table, each row being
  pid, name, rss, uss, pss of its entry in this order, and \<open>printCSV\<close> writes the line
  \<open>pid,name,rss,uss,pss\<close> and then these rows through the CSV writer.
\<close>

theorem printCSV_header_and_rows:
  "makeCSV allpids = Inr (map csv_row allpids) \<and>
   length (map csv_row allpids) = length allpids \<and>
   map hd (map csv_row allpids) = map fst allpids \<and>
   printCSV WriteAll allpids =
     Inr (''pid,name,rss,uss,pss'' @ ''\<newline>'' @ WriteAll (map csv_row allpids))"
  by (simp add: makeCSV_rows printCSV_def csv_row_def comp_def)

text \<open>
  The theorem on the table \<open>two_procs\<close>: the column before the last is USS.
\<close>

theorem printCSV_header_and_rows_witness:
  "printCSV plain_csv two_procs =
     Inr ''pid,name,rss,uss,pss\<newline>1,init,4,4,2\<newline>7,cat,16,1,8\<newline>''"
  using printCSV_header_and_rows [of two_procs plain_csv]
  by (simp add: two_procs_def csv_row_def plain_csv_def Itoa_def)

section \<open>C10: getsmaps is partial\<close>

lemma body_lines_nonempty: "l \<in> set (body_lines smaps) \<Longrightarrow> l \<noteq> []"
  by (auto simp: body_lines_def dest: set_takeWhileD)

lemma getsmaps_line_blank: "Fields U l = [] \<Longrightarrow> getsmaps_line U l st = Inl IndexOutOfRange"
  by (simp add: getsmaps_line_def)

lemma getsmaps_line_counter_first:
  "counter_line U l \<Longrightarrow> getsmaps_line U l (start, []) =
     Inl (if length (Fields U l) < 2 then IndexOutOfRange else NilMapAssignment)"
  by (simp add: getsmaps_line_def counter_line_def Let_def)

lemma loop_ok_nonblank:
  "getsmaps_loop U ls st = Inr r \<Longrightarrow>
     list_all (\<lambda>l. Fields U l \<noteq> []) (takeWhile (\<lambda>l. l \<noteq> []) ls)"
proof (induction ls arbitrary: st)
  case Nil
  then show ?case by simp
next
  case (Cons l ls)
  show ?case
  proof (cases "l = []")
    case True
    then show ?thesis by simp
  next
    case False
    with Cons.prems obtain st' where
      step: "getsmaps_line U l st = Inr st'" and rest: "getsmaps_loop U ls st' = Inr r"
      by (auto split: sum.splits)
    from step have "Fields U l \<noteq> []"
      using getsmaps_line_blank [of U l st] by auto
    with False Cons.IH [OF rest] show ?thesis by simp
  qed
qed

lemma loop_ok_first_header:
  assumes "getsmaps_loop U ls (start, []) = Inr r"
  shows "case takeWhile (\<lambda>l. l \<noteq> []) ls of [] \<Rightarrow> True | l # x \<Rightarrow> \<not> counter_line U l"
proof (cases ls)
  case Nil
  then show ?thesis by simp
next
  case (Cons l ls')
  show ?thesis
  proof (cases "l = []")
    case True
    with Cons show ?thesis by simp
  next
    case False
    with assms Cons obtain st' where "getsmaps_line U l (start, []) = Inr st'"
      by (auto split: sum.splits)
    then have "\<not> counter_line U l"
      using getsmaps_line_counter_first [of U l start] by auto
    with False Cons show ?thesis by simp
  qed
qed

text \<open>
  C10: \<open>getsmaps\<close> returns a map only if every line before the first empty line has a
  field (is not blank) and the first of these lines is a header. A text whose first line
  is blank panics with an index out of range, and a text whose first line is a counter
  line with a value field panics with an assignment to an entry of a nil map.
\<close>

theorem getsmaps_not_total:
  "(getsmaps U smaps = Inr pm \<longrightarrow>
      list_all (\<lambda>l. Fields U l \<noteq> []) (body_lines smaps) \<and>
      (case body_lines smaps of [] \<Rightarrow> True | l # ls \<Rightarrow> \<not> counter_line U l)) \<and>
   (body_lines smaps = l # ls \<and> Fields U l = [] \<longrightarrow> getsmaps U smaps = Inl IndexOutOfRange) \<and>
   (body_lines smaps = l # ls \<and> counter_line U l \<and> 2 \<le> length (Fields U l) \<longrightarrow>
      getsmaps U smaps = Inl NilMapAssignment)"
proof (intro conjI impI)
  assume "getsmaps U smaps = Inr pm"
  then obtain st where ok: "getsmaps_loop U (Split smaps CHR 0x0A) ([], []) = Inr st"
    by (auto simp: getsmaps_def split: sum.splits)
  show "list_all (\<lambda>l. Fields U l \<noteq> []) (body_lines smaps)"
    using loop_ok_nonblank [OF ok] by (simp add: body_lines_def)
  show "case body_lines smaps of [] \<Rightarrow> True | l # ls \<Rightarrow> \<not> counter_line U l"
    using loop_ok_first_header [OF ok] by (simp add: body_lines_def)
next
  assume a: "body_lines smaps = l # ls \<and> Fields U l = []"
  then have "l \<noteq> []"
    using body_lines_nonempty [of l smaps] by simp
  with a show "getsmaps U smaps = Inl IndexOutOfRange"
    using getsmaps_loop_body_lines [of U "Split smaps CHR 0x0A" "([], [])"]
    by (simp add: getsmaps_def body_lines_def getsmaps_line_blank)
next
  assume a: "body_lines smaps = l # ls \<and> counter_line U l \<and> 2 \<le> length (Fields U l)"
  then have "l \<noteq> []"
    using body_lines_nonempty [of l smaps] by simp
  with a show "getsmaps U smaps = Inl NilMapAssignment"
    using getsmaps_loop_body_lines [of U "Split smaps CHR 0x0A" "([], [])"]
    by (simp add: getsmaps_def body_lines_def getsmaps_line_counter_first)
qed

text \<open>
  The theorem on \<open>cat_block\<close>, which parses, on a line of two spaces and on a lone
  counter line, which both panic.
\<close>

theorem getsmaps_not_total_witness:
  "getsmaps no_unicode cat_block =
     Inr [(''08048000'', [(''rss'', 4), (''pss'', 2), (''private_clean'', 0), (''private_dirty'', 4)])] \<and>
   list_all (\<lambda>l. Fields no_unicode l \<noteq> []) (body_lines cat_block) \<and>
   body_lines ''  '' = [''  ''] \<and> Fields no_unicode ''  '' = [] \<and>
   getsmaps no_unicode ''  '' = Inl IndexOutOfRange \<and>
   body_lines ''Rss: 4 kB'' = [''Rss: 4 kB''] \<and> counter_line no_unicode ''Rss: 4 kB'' \<and>
   getsmaps no_unicode ''Rss: 4 kB'' = Inl NilMapAssignment"
proof -
  have ok: "getsmaps no_unicode cat_block =
     Inr [(''08048000'', [(''rss'', 4), (''pss'', 2), (''private_clean'', 0), (''private_dirty'', 4)])]"
    by (simp add: cat_block_def eval_getsmaps)
  have blank: "body_lines ''  '' = [''  ''] \<and> Fields no_unicode ''  '' = []"
    by (simp add: body_lines_def eval_strings)
  have counter: "body_lines ''Rss: 4 kB'' = [''Rss: 4 kB''] \<and> counter_line no_unicode ''Rss: 4 kB''
      \<and> 2 \<le> length (Fields no_unicode ''Rss: 4 kB'')"
    by (simp add: body_lines_def counter_line_def eval_strings)
  from getsmaps_not_total [of no_unicode cat_block _ "[]" "[]"] ok
  have "list_all (\<lambda>l. Fields no_unicode l \<noteq> []) (body_lines cat_block)"
    by blast
  moreover from getsmaps_not_total [of no_unicode "''  ''" "[]" "''  ''" "[]"] blank
  have "getsmaps no_unicode ''  '' = Inl IndexOutOfRange"
    by blast
  moreover from getsmaps_not_total [of no_unicode "''Rss: 4 kB''" "[]" "''Rss: 4 kB''" "[]"] counter
  have "getsmaps no_unicode ''Rss: 4 kB'' = Inl NilMapAssignment"
    by blast
  ultimately show ?thesis
    using ok blank counter by simp
qed

end
